theory Spec2Isabelle
  imports Main "HOL-Library.Word"
begin

section \<open>gowget: strings, integers and the world around the downloader\<close>

text \<open>
  A Go string is modelled by the sequence of its code points, as \<open>[]rune(s)\<close> and the
  \<open>regexp\<close> package read it (a byte that is not valid UTF-8 is the code point 65533
  there). \<open>len([]rune(s))\<close> is then \<open>length\<close>. String literals of the source are
  written \<open>str ''...''\<close>.

  The target is a 64-bit one: Go's \<open>int\<close> holds the integers from \<open>- 2^63\<close> up to
  \<open>2^63 - 1\<close>, and a sum or a product that leaves this range wraps around. It is modelled
  by HOL's \<open>int\<close> with the wrap-around written out, as \<open>wrap\<close> below. Go's \<open>/\<close> truncates
  towards zero: it is \<open>quo\<close> below.
\<close>

type_synonym rune = nat
type_synonym gostring = "rune list"
type_synonym byte = "8 word"

definition str :: "string \<Rightarrow> gostring" where
  "str s = map of_char s"

definition nl :: gostring where
  "nl = [10]"

definition wrap :: "int \<Rightarrow> int" where
  "wrap i = (i + 2 ^ 63) mod 2 ^ 64 - 2 ^ 63"

definition quo :: "int \<Rightarrow> int \<Rightarrow> int" where
  "quo a b = (if (a < 0) = (b < 0) then \<bar>a\<bar> div \<bar>b\<bar> else - (\<bar>a\<bar> div \<bar>b\<bar>))"

text \<open>The verb \<open>%d\<close> of \<open>fmt\<close> and \<open>strconv.Itoa\<close>: decimal digits, a minus sign first.\<close>

fun digits :: "nat \<Rightarrow> gostring" where
  "digits n = (if n < 10 then [48 + n] else digits (n div 10) @ [48 + n mod 10])"

definition itoa :: "int \<Rightarrow> gostring" where
  "itoa i = (if i < 0 then 45 # digits (nat (- i)) else digits (nat i))"

subsection \<open>Constants of main.go\<close>

definition initialChunkSize :: int where
  "initialChunkSize = 10 * 1024"

definition chunksPerSecond :: int where
  "chunksPerSecond = 2"

definition filenameSubstitution :: gostring where
  "filenameSubstitution = str ''_''"

definition defaultFilename :: gostring where
  "defaultFilename = str ''index.html''"

text \<open>\<open>time.Second\<close>, in nanoseconds, the unit of \<open>time.Duration\<close>.\<close>

definition second :: nat where
  "second = 1000000000"

subsection \<open>The downloader, its printer and the working directory\<close>

datatype node = Dir | File "byte list"

text \<open>
  The fields of \<open>Downloader\<close>, with the text the printer has received on its two channels
  (as \<open>mockPrinter\<close> of the tests collects it) and the entries of the current working
  directory.
\<close>

record world =
  downloadPercentages :: "gostring \<rightharpoonup> int"
  statusTableRowFormat :: gostring
  stdout :: gostring
  stderr :: gostring
  cwd :: "gostring \<rightharpoonup> node"


definition ErrPrintf :: "world \<Rightarrow> gostring \<Rightarrow> world" where
  "ErrPrintf w text = w\<lparr>stderr := stderr w @ text\<rparr>"

definition addDownloadPercentage :: "world \<Rightarrow> gostring \<Rightarrow> int \<Rightarrow> world" where
  "addDownloadPercentage w url percentage =
     w\<lparr>downloadPercentages := (downloadPercentages w)(url \<mapsto> percentage)\<rparr>"

section \<open>getFilename\<close>

text \<open>
  The character classes of the two regular expressions. \<open>\w\<close> is ASCII only in Go's
  syntax. \<open>\pL\<close> is the Unicode category Letter: below 128 these are the Latin letters;
  above, the table of the \<open>unicode\<close> package decides, which is the parameter \<open>L\<close>.
\<close>

definition slash :: rune where
  "slash = 47"

definition isDigit :: "rune \<Rightarrow> bool" where
  "isDigit c = (48 \<le> c \<and> c \<le> 57)"

definition isAsciiLetter :: "rune \<Rightarrow> bool" where
  "isAsciiLetter c = ((65 \<le> c \<and> c \<le> 90) \<or> (97 \<le> c \<and> c \<le> 122))"

definition isWordRune :: "rune \<Rightarrow> bool" where
  "isWordRune c = (isDigit c \<or> isAsciiLetter c \<or> c = 95)"

definition pL :: "(rune \<Rightarrow> bool) \<Rightarrow> rune \<Rightarrow> bool" where
  "pL L c = (if c < 128 then isAsciiLetter c else L c)"

text \<open>
  \<open>(?:/([^/]*))*\<close>: every round takes a slash and the longest run without a slash, and
  overwrites the capture; the star is greedy and a round never fails once its slash is
  there, so the rounds go on to the end of the text.
\<close>

function lastSegment :: "gostring \<Rightarrow> gostring option \<Rightarrow> gostring option" where
  "lastSegment [] cap = cap"
| "lastSegment (c # cs) cap =
     (if c = slash
      then lastSegment (dropWhile (\<lambda>x. x \<noteq> slash) cs) (Some (takeWhile (\<lambda>x. x \<noteq> slash) cs))
      else cap)"
  by pat_completeness auto
termination
  by (relation "measure (\<lambda>(s, cap). length s)") (auto simp: length_dropWhile_le le_imp_less_Suc)

text \<open>
  \<open>\w+://[^/]+(?:/([^/]*))*\<close> matched at the start of \<open>s\<close>: \<open>None\<close> when it does not
  match there, else the capture of group 1 (\<open>None\<close> when the group took no part). \<open>\w+\<close>
  has to stop at a colon, which is no word character, so only its longest run can be
  followed by \<open>://\<close>; \<open>[^/]+\<close> takes its longest run, after which the rest cannot fail.
\<close>

definition matchAt :: "gostring \<Rightarrow> gostring option option" where
  "matchAt s =
     (let scheme = takeWhile isWordRune s; r1 = dropWhile isWordRune s in
      if scheme = [] \<or> take 3 r1 \<noteq> str ''://'' then None
      else let r2 = drop 3 r1; host = takeWhile (\<lambda>c. c \<noteq> slash) r2 in
        if host = [] then None
        else Some (lastSegment (dropWhile (\<lambda>c. c \<noteq> slash) r2) None))"

text \<open>\<open>FindStringSubmatch\<close> is not anchored: the leftmost position that matches wins.\<close>

fun findStringSubmatch :: "gostring \<Rightarrow> gostring option option" where
  "findStringSubmatch [] = matchAt []"
| "findStringSubmatch (c # cs) =
     (case matchAt (c # cs) of Some cap \<Rightarrow> Some cap | None \<Rightarrow> findStringSubmatch cs)"

text \<open>\<open>[^\pL\-.0-9]\<close>, and \<open>ReplaceAllLiteralString\<close> with it.\<close>

definition illegal :: "(rune \<Rightarrow> bool) \<Rightarrow> rune \<Rightarrow> bool" where
  "illegal L c = (\<not> (pL L c \<or> c = 45 \<or> c = 46 \<or> isDigit c))"

definition replaceIllegal :: "(rune \<Rightarrow> bool) \<Rightarrow> gostring \<Rightarrow> gostring" where
  "replaceIllegal L s = concat (map (\<lambda>c. if illegal L c then filenameSubstitution else [c]) s)"

text \<open>\<open>matches[1]\<close> is the empty string when group 1 took no part in the match.\<close>

definition getFilename :: "(rune \<Rightarrow> bool) \<Rightarrow> gostring \<Rightarrow> gostring" where
  "getFilename L url =
     (let filename =
        (case findStringSubmatch url of
           None \<Rightarrow> defaultFilename
         | Some cap \<Rightarrow>
             (let m1 = (case cap of None \<Rightarrow> [] | Some seg \<Rightarrow> seg) in
              if m1 \<noteq> [] \<and> m1 \<noteq> str ''..'' \<and> m1 \<noteq> str ''.'' then m1 else defaultFilename))
      in replaceIllegal L filename)"

section \<open>getUniqueFilename\<close>

text \<open>
  \<open>os.Stat\<close> answers "does not exist" for exactly the names that the directory does not
  hold. The loop of the source, with its two variables; it goes on for as long as the
  candidate exists, so it is a partial function. \<open>postfix++\<close> is an addition on \<open>int\<close>.
\<close>

text \<open>\<open>fmt.Sprintf("%s.%d", filename, postfix)\<close>\<close>

definition numbered :: "gostring \<Rightarrow> int \<Rightarrow> gostring" where
  "numbered filename postfix = filename @ str ''.'' @ itoa postfix"

partial_function (option) uniqueLoop ::
  "(gostring \<Rightarrow> bool) \<Rightarrow> gostring \<Rightarrow> gostring \<Rightarrow> int \<Rightarrow> gostring option" where
  "uniqueLoop exists filename uniqueFilename postfix =
     (if exists uniqueFilename
      then uniqueLoop exists filename (numbered filename postfix) (wrap (postfix + 1))
      else Some uniqueFilename)"

definition getUniqueFilename :: "(gostring \<rightharpoonup> node) \<Rightarrow> gostring \<Rightarrow> gostring option" where
  "getUniqueFilename dir filename = uniqueLoop (\<lambda>name. dir name \<noteq> None) filename filename 1"

section \<open>initializeStatusTable\<close>





section \<open>downloadUrl\<close>

text \<open>
  What one run of \<open>downloadUrl\<close> meets outside the program: the answer of
  \<open>ioutil.TempFile\<close> (an error text, or the name of the file it made), the answer of the
  \<open>webGetter\<close> (an error text, or the bytes the stream delivers before its reads stop
  succeeding, and the declared length), the clock, and the answer of \<open>os.Rename\<close>. The
  clock gives, for every round of the copy loop, the time since \<open>measurementStart\<close> at the
  test of the \<open>if\<close> and the time that passes until \<open>time.Now\<close> is read again inside it,
  in nanoseconds; a round for which the clock has no entry is never finished.
\<close>

record env =
  tempFile :: "gostring \<Rightarrow> gostring + gostring"
  webGet :: "gostring \<Rightarrow> gostring + (byte list \<times> int)"
  clock :: "(nat \<times> nat) list"
  renameErr :: "gostring option"

text \<open>The local variables of the copy loop, the rest of the stream and the temporary file.\<close>

record transfer =
  body :: "byte list"
  tmpfile :: "byte list"
  chunkLen :: int
  totalCopied :: int
  lastCopied :: int

text \<open>
  \<open>io.CopyN(dst, src, n)\<close> copies through \<open>io.LimitReader(src, n)\<close>: for \<open>n \<le> 0\<close> it reads
  nothing and returns \<open>(0, nil)\<close>; it returns \<open>(n, nil)\<close> when it has written \<open>n\<close> bytes,
  and an error with the bytes written when the stream ends before. The result is the
  bytes copied, the rest of the stream, and whether \<open>err\<close> is not \<open>nil\<close>.
\<close>

definition copyN :: "byte list \<Rightarrow> int \<Rightarrow> byte list \<times> byte list \<times> bool" where
  "copyN src n =
     (if n \<le> 0 then ([], src, False)
      else if n \<le> int (length src) then (take (nat n) src, drop (nat n) src, False)
      else (src, [], True))"

text \<open>
  One round of the loop. \<open>totalCopied\<close> is the number of bytes that are in the temporary
  file (lemma \<open>copyStates_published\<close>), which stays in the range of \<open>int\<close>, since no file
  holds \<open>2^63\<close> bytes: its sum is written without \<open>wrap\<close>. The product
  \<open>totalCopied * 100\<close> leaves the range once \<open>2^63 div 100\<close> bytes are copied, and wraps. \<open>lastCopied\<close> is a \<open>float64\<close> that holds a whole number; the quotient
  \<open>lastCopied / elapsed.Seconds()\<close>, converted to \<open>int\<close>, is taken as the exact quotient,
  truncated.
\<close>

definition copyStep ::
  "gostring \<Rightarrow> int \<Rightarrow> nat \<times> nat \<Rightarrow> world \<times> transfer \<Rightarrow> world \<times> transfer \<times> bool" where
  "copyStep url contentLen tick s =
     (case s of (w, t) \<Rightarrow>
      case copyN (body t) (chunkLen t) of (chunk, rest, err) \<Rightarrow>
      let n = int (length chunk);
          total = totalCopied t + n;
          copied = lastCopied t + n;
          w' = (if contentLen > 0
                then addDownloadPercentage w url (quo (wrap (total * 100)) contentLen)
                else w);
          measured = (fst tick > second);
          lastCopiedPerSecond = quo (copied * int second) (int (fst tick + snd tick))
      in (w',
          \<lparr>body = rest, tmpfile = tmpfile t @ chunk,
           chunkLen = (if measured then quo lastCopiedPerSecond chunksPerSecond else chunkLen t),
           totalCopied = total,
           lastCopied = (if measured then 0 else copied)\<rparr>,
          err))"

fun copyLoop ::
  "gostring \<Rightarrow> int \<Rightarrow> (nat \<times> nat) list \<Rightarrow> world \<times> transfer \<Rightarrow> (world \<times> transfer) option" where
  "copyLoop url contentLen [] s = None"
| "copyLoop url contentLen (tick # ticks) s =
     (case copyStep url contentLen tick s of (w, t, err) \<Rightarrow>
      if err then Some (w, t) else copyLoop url contentLen ticks (w, t))"

text \<open>The worlds and variables after every round that the clock lets the loop make.\<close>

fun copyStates ::
  "gostring \<Rightarrow> int \<Rightarrow> (nat \<times> nat) list \<Rightarrow> world \<times> transfer \<Rightarrow> (world \<times> transfer) list" where
  "copyStates url contentLen [] s = []"
| "copyStates url contentLen (tick # ticks) s =
     (case copyStep url contentLen tick s of (w, t, err) \<Rightarrow>
      (w, t) # (if err then [] else copyStates url contentLen ticks (w, t)))"

definition startTransfer :: "byte list \<Rightarrow> transfer" where
  "startTransfer stream =
     \<lparr>body = stream, tmpfile = [], chunkLen = initialChunkSize, totalCopied = 0, lastCopied = 0\<rparr>"

text \<open>
  \<open>downloadUrl\<close>: the world it leaves and the value it sends on \<open>finished\<close>; \<open>None\<close> when
  it never sends one. A nil \<open>*os.File\<close> under the verb \<open>%s\<close> prints as below.
\<close>

definition downloadUrl ::
  "(rune \<Rightarrow> bool) \<Rightarrow> env \<Rightarrow> gostring \<Rightarrow> world \<Rightarrow> (world \<times> bool) option" where
  "downloadUrl L e url w0 =
     (let w1 = addDownloadPercentage w0 url 0 in
      case getUniqueFilename (cwd w1) (getFilename L url) of
        None \<Rightarrow> None
      | Some filename \<Rightarrow>
          (case tempFile e filename of
             Inl msg \<Rightarrow>
               Some (ErrPrintf w1 (str ''Unable to create temporary file %!s(*os.File=<nil>): ''
                                    @ msg @ nl), False)
           | Inr tmp \<Rightarrow>
               (let w2 = w1\<lparr>cwd := (cwd w1)(tmp \<mapsto> File [])\<rparr> in
                case webGet e url of
                  Inl msg \<Rightarrow>
                    Some (ErrPrintf w2 (str ''Unable to download URL '' @ url @ str '': ''
                                         @ msg @ nl), False)
                | Inr (stream, contentLen) \<Rightarrow>
                    (let w3 = (if contentLen = 0 then addDownloadPercentage w2 url 100 else w2) in
                     case copyLoop url contentLen (clock e) (w3, startTransfer stream) of
                       None \<Rightarrow> None
                     | Some (w4, t) \<Rightarrow>
                         (let w5 = w4\<lparr>cwd := (cwd w4)(tmp \<mapsto> File (tmpfile t))\<rparr> in
                          case renameErr e of
                            Some msg \<Rightarrow>
                              Some (ErrPrintf w5 (str ''Unable to rename '' @ tmp @ str '' to ''
                                                   @ filename @ str '': '' @ msg), False)
                          | None \<Rightarrow>
                              Some (w5\<lparr>cwd := ((cwd w5)(tmp := None))(filename \<mapsto> File (tmpfile t))\<rparr>,
                                    totalCopied t = contentLen))))))"

section \<open>main\<close>

text \<open>
  \<open>main\<close> with \<open>os.Args[0]\<close> and \<open>os.Args[1:]\<close>: the world it leaves and the exit code of
  the process. \<open>Download\<close> is a parameter.
\<close>

definition usage :: "gostring \<Rightarrow> gostring" where
  "usage argv0 = str ''gowget: missing url'' @ nl @ str ''Usage: '' @ argv0 @ str '' [URL]...'' @ nl"

definition main ::
  "(gostring list \<Rightarrow> world \<Rightarrow> world option) \<Rightarrow> gostring \<Rightarrow> gostring list \<Rightarrow> world
     \<Rightarrow> (world \<times> int) option" where
  "main Download argv0 urls w =
     (if length urls = 0 then Some (w\<lparr>stdout := stdout w @ usage argv0\<rparr>, 1)
      else map_option (\<lambda>w'. (w', 0)) (Download urls w))"

section \<open>Auxiliary notions and the fixtures of the tests\<close>

text \<open>The world that \<open>downloadUrl\<close> has made when its copy loop starts.\<close>

definition afterGet :: "world \<Rightarrow> gostring \<Rightarrow> gostring \<Rightarrow> int \<Rightarrow> world" where
  "afterGet w url tmp cl =
     (let w2 = (addDownloadPercentage w url 0)\<lparr>cwd := (cwd w)(tmp \<mapsto> File [])\<rparr>
      in if cl = 0 then addDownloadPercentage w2 url 100 else w2)"

text \<open>Every percentage of the registry lies between 0 and 100.\<close>

definition pctInRange :: "world \<Rightarrow> bool" where
  "pctInRange w = (\<forall>url v. downloadPercentages w url = Some v \<longrightarrow> 0 \<le> v \<and> v \<le> 100)"

text \<open>
  \<open>NewDownloader\<close> in a given working directory, with the empty \<open>mockPrinter\<close>; a
  \<open>webGetter\<close> in the manner of \<open>mockWebGetter\<close>, which serves a fixed stream under a
  declared length, in an environment where \<open>TempFile\<close> and \<open>Rename\<close> succeed; the URL of
  \<open>TestDownloadUrl\<close>.
\<close>

definition NewDownloader :: "(gostring \<rightharpoonup> node) \<Rightarrow> world" where
  "NewDownloader dir =
     \<lparr>downloadPercentages = Map.empty, statusTableRowFormat = [], stdout = [], stderr = [], cwd = dir\<rparr>"

definition mockEnv :: "byte list \<Rightarrow> int \<Rightarrow> (nat \<times> nat) list \<Rightarrow> env" where
  "mockEnv stream cl ticks =
     \<lparr>tempFile = (\<lambda>pattern. Inr (pattern @ str ''123456'')),
      webGet = (\<lambda>url. Inr (stream, cl)),
      clock = ticks,
      renameErr = None\<rparr>"

definition testUrl :: gostring where
  "testUrl = str ''http://example.com/test.out''"



text \<open>A round of the copy loop that ends 10240 seconds after \<open>measurementStart\<close>.\<close>

definition stalled :: "nat \<times> nat" where
  "stalled = (10240 * second, 0)"

text \<open>
  A stream of \<open>10^17\<close> bytes, and a clock under which no round of the copy loop finds
  that a second has passed since \<open>measurementStart\<close>, so that every round copies
  \<open>initialChunkSize\<close> bytes; the clock stops after 9007199254741 rounds.
\<close>

definition hugeStream :: "byte list" where
  "hugeStream = replicate (10 ^ 17) 0"

definition steadyClock :: "(nat \<times> nat) list" where
  "steadyClock = replicate 9007199254741 (0, 0)"

subsection \<open>The words of the specification\<close>

text \<open>
  The text that a list of segments makes, each after its slash, and "the URL matches
  \<open>scheme://host\<close> followed by these \<open>/\<close>-delimited segments": somewhere in the URL a
  scheme of word characters, \<open>://\<close>, a host without a slash, and the segments up to the
  end of the URL.
\<close>

definition segments :: "gostring list \<Rightarrow> gostring" where
  "segments segs = concat (map (\<lambda>seg. slash # seg) segs)"

definition urlShape :: "gostring \<Rightarrow> gostring list \<Rightarrow> bool" where
  "urlShape url segs =
     (\<exists>pre scheme host.
        url = pre @ scheme @ str ''://'' @ host @ segments segs
        \<and> scheme \<noteq> [] \<and> (\<forall>c \<in> set scheme. isWordRune c)
        \<and> host \<noteq> [] \<and> slash \<notin> set host
        \<and> (\<forall>seg \<in> set segs. slash \<notin> set seg))"

text \<open>
  "Every character that is not a Unicode letter, hyphen, dot, or decimal digit replaced
  by \<open>_\<close>."
\<close>

definition specSanitize :: "(rune \<Rightarrow> bool) \<Rightarrow> gostring \<Rightarrow> gostring" where
  "specSanitize L seg = map (\<lambda>c. if pL L c \<or> c = 45 \<or> c = 46 \<or> isDigit c then c else 95) seg"




subsection \<open>Notions of the proofs\<close>


text \<open>The text after the last slash, and the number of slashes.\<close>

definition tailSeg :: "gostring \<Rightarrow> gostring" where
  "tailSeg s = rev (takeWhile (\<lambda>x. x \<noteq> slash) (rev s))"

definition slashes :: "gostring \<Rightarrow> nat" where
  "slashes s = length (filter (\<lambda>c. c = slash) s)"

section \<open>Lemmas on the copy loop\<close>

lemma quo_nonneg: "0 \<le> a \<Longrightarrow> 0 < b \<Longrightarrow> quo a b = a div b"
  by (simp add: quo_def)

lemma wrap_id: "- (2 ^ 63) \<le> i \<Longrightarrow> i < 2 ^ 63 \<Longrightarrow> wrap i = i"
  by (simp add: wrap_def)

lemma copyN_parts:
  "copyN src n = (chunk, rest, err) \<Longrightarrow> chunk @ rest = src \<and> (err \<longrightarrow> rest = [])"
  by (auto simp: copyN_def split: if_splits)

lemma copyStep_facts:
  assumes "copyStep url cl tick (w, t) = (w', t', err)"
  shows "tmpfile t' @ body t' = tmpfile t @ body t"
    and "totalCopied t' + int (length (body t')) = totalCopied t + int (length (body t))"
    and "totalCopied t' - int (length (tmpfile t')) = totalCopied t - int (length (tmpfile t))"
    and "err \<Longrightarrow> body t' = []"
    and "stderr w' = stderr w" and "stdout w' = stdout w" and "cwd w' = cwd w"
    and "statusTableRowFormat w' = statusTableRowFormat w"
    and "0 < cl \<Longrightarrow>
           downloadPercentages w' =
             (downloadPercentages w)(url \<mapsto> quo (wrap (totalCopied t' * 100)) cl)"
    and "\<not> 0 < cl \<Longrightarrow> w' = w"
    and "totalCopied t \<le> totalCopied t'"
proof -
  obtain chunk rest e where c: "copyN (body t) (chunkLen t) = (chunk, rest, e)"
    by (cases "copyN (body t) (chunkLen t)") auto
  from copyN_parts [OF c] have p: "chunk @ rest = body t" "e \<longrightarrow> rest = []" by auto
  from assms c have t': "t' = \<lparr>body = rest, tmpfile = tmpfile t @ chunk,
           chunkLen = (if fst tick > second
                       then quo (quo ((lastCopied t + int (length chunk)) * int second)
                                   (int (fst tick + snd tick))) chunksPerSecond
                       else chunkLen t),
           totalCopied = totalCopied t + int (length chunk),
           lastCopied = (if fst tick > second then 0 else lastCopied t + int (length chunk))\<rparr>"
    and e: "err = e"
    and w': "w' = (if cl > 0
                   then addDownloadPercentage w url
                          (quo (wrap ((totalCopied t + int (length chunk)) * 100)) cl)
                   else w)"
    by (auto simp: copyStep_def Let_def)
  from p have len: "int (length (body t)) = int (length chunk) + int (length rest)"
    by (metis length_append of_nat_add)
  show "tmpfile t' @ body t' = tmpfile t @ body t" using t' p by simp
  show "totalCopied t' + int (length (body t')) = totalCopied t + int (length (body t))"
    using t' len by simp
  show "totalCopied t' - int (length (tmpfile t')) = totalCopied t - int (length (tmpfile t))"
    using t' by simp
  show "err \<Longrightarrow> body t' = []" using t' p e by simp
  show "stderr w' = stderr w" "stdout w' = stdout w" "cwd w' = cwd w"
    "statusTableRowFormat w' = statusTableRowFormat w"
    using w' by (simp_all add: addDownloadPercentage_def)
  show "0 < cl \<Longrightarrow>
          downloadPercentages w' =
            (downloadPercentages w)(url \<mapsto> quo (wrap (totalCopied t' * 100)) cl)"
    using w' t' by (simp add: addDownloadPercentage_def)
  show "\<not> 0 < cl \<Longrightarrow> w' = w" using w' by simp
  show "totalCopied t \<le> totalCopied t'" using t' by simp
qed

text \<open>When the loop ends, the whole stream is in the temporary file and is counted.\<close>

lemma copyLoop_Some:
  "copyLoop url cl ticks (w, t) = Some (w', t') \<Longrightarrow>
     body t' = [] \<and> tmpfile t' = tmpfile t @ body t
     \<and> totalCopied t' = totalCopied t + int (length (body t))
     \<and> stderr w' = stderr w \<and> stdout w' = stdout w \<and> cwd w' = cwd w"
proof (induction ticks arbitrary: w t)
  case Nil
  then show ?case by simp
next
  case (Cons tick ticks)
  obtain w1 t1 err where s: "copyStep url cl tick (w, t) = (w1, t1, err)"
    by (cases "copyStep url cl tick (w, t)") auto
  note f = copyStep_facts [OF s]
  show ?case
  proof (cases err)
    case True
    with Cons.prems s have "w' = w1" "t' = t1" by auto
    with f True show ?thesis by auto
  next
    case False
    with Cons.prems s have "copyLoop url cl ticks (w1, t1) = Some (w', t')" by simp
    from Cons.IH [OF this] f show ?thesis by auto
  qed
qed

lemma copyLoop_in_copyStates:
  "copyLoop url cl ticks s = Some s' \<Longrightarrow> s' \<in> set (copyStates url cl ticks s)"
proof (induction ticks arbitrary: s)
  case Nil
  then show ?case by simp
next
  case (Cons tick ticks)
  obtain w1 t1 err where s: "copyStep url cl tick s = (w1, t1, err)"
    by (cases "copyStep url cl tick s") auto
  show ?case
  proof (cases err)
    case True
    with Cons.prems s show ?thesis by auto
  next
    case False
    with Cons.prems s have "copyLoop url cl ticks (w1, t1) = Some s'" by simp
    from Cons.IH [OF this] s False show ?thesis by auto
  qed
qed

text \<open>
  After every round, \<open>totalCopied\<close> is the number of bytes in the temporary file, and
  the registry holds the quotient of the wrapped product.
\<close>

lemma copyStates_published:
  assumes "0 < cl" and "totalCopied t = int (length (tmpfile t))"
  shows "\<forall>(w', t') \<in> set (copyStates url cl ticks (w, t)).
           downloadPercentages w' url = Some (quo (wrap (totalCopied t' * 100)) cl)
           \<and> totalCopied t' = int (length (tmpfile t'))
           \<and> tmpfile t' @ body t' = tmpfile t @ body t"
  using assms(2)
proof (induction ticks arbitrary: w t)
  case Nil
  then show ?case by simp
next
  case (Cons tick ticks)
  obtain w1 t1 err where s: "copyStep url cl tick (w, t) = (w1, t1, err)"
    by (cases "copyStep url cl tick (w, t)") auto
  note f = copyStep_facts [OF s]
  from f(3) Cons.prems have tc: "totalCopied t1 = int (length (tmpfile t1))" by simp
  from f(9) assms(1)
  have pc: "downloadPercentages w1 url = Some (quo (wrap (totalCopied t1 * 100)) cl)"
    by simp
  from Cons.IH [OF tc, of w1] f(1)
  have rest: "\<forall>(w', t') \<in> set (copyStates url cl ticks (w1, t1)).
           downloadPercentages w' url = Some (quo (wrap (totalCopied t' * 100)) cl)
           \<and> totalCopied t' = int (length (tmpfile t'))
           \<and> tmpfile t' @ body t' = tmpfile t @ body t"
    by auto
  show ?case using s pc tc f(1) rest by auto
qed

text \<open>
  As long as the product stays in the range of \<open>int\<close>, the registry holds the floor of
  \<open>totalCopied * 100 / contentLen\<close> after every round.
\<close>

lemma copyStates_inv:
  assumes "0 < cl" and "totalCopied t = int (length (tmpfile t))"
    and "(totalCopied t + int (length (body t))) * 100 < 2 ^ 63"
  shows "\<forall>(w', t') \<in> set (copyStates url cl ticks (w, t)).
           downloadPercentages w' url = Some ((totalCopied t' * 100) div cl)
           \<and> totalCopied t' = int (length (tmpfile t'))
           \<and> tmpfile t' @ body t' = tmpfile t @ body t"
  using assms(2,3)
proof (induction ticks arbitrary: w t)
  case Nil
  then show ?case by simp
next
  case (Cons tick ticks)
  obtain w1 t1 err where s: "copyStep url cl tick (w, t) = (w1, t1, err)"
    by (cases "copyStep url cl tick (w, t)") auto
  note f = copyStep_facts [OF s]
  from f(3) Cons.prems have tc: "totalCopied t1 = int (length (tmpfile t1))" by simp
  from f(2) Cons.prems
  have bd: "(totalCopied t1 + int (length (body t1))) * 100 < 2 ^ 63" by simp
  from tc have nn: "0 \<le> totalCopied t1 * 100" by simp
  from bd have "totalCopied t1 * 100 < 2 ^ 63" by simp
  with nn have "wrap (totalCopied t1 * 100) = totalCopied t1 * 100" by (simp add: wrap_id)
  with f(9) assms(1) nn
  have pc: "downloadPercentages w1 url = Some ((totalCopied t1 * 100) div cl)"
    by (simp add: quo_nonneg)
  from Cons.IH [OF tc bd, of w1] f(1)
  have rest: "\<forall>(w', t') \<in> set (copyStates url cl ticks (w1, t1)).
           downloadPercentages w' url = Some ((totalCopied t' * 100) div cl)
           \<and> totalCopied t' = int (length (tmpfile t'))
           \<and> tmpfile t' @ body t' = tmpfile t @ body t"
    by auto
  show ?case using s pc tc f(1) rest by auto
qed

lemma pctInRange_add:
  "pctInRange w \<Longrightarrow> 0 \<le> v \<Longrightarrow> v \<le> 100 \<Longrightarrow> pctInRange (addDownloadPercentage w url v)"
  by (auto simp: pctInRange_def addDownloadPercentage_def)

lemma percent_bounds:
  assumes "0 < cl" "0 \<le> n" "n \<le> cl"
  shows "0 \<le> (n * 100) div (cl::int)" "(n * 100) div cl \<le> 100"
proof -
  show "0 \<le> (n * 100) div cl" using assms by (simp add: pos_imp_zdiv_nonneg_iff)
  have "n * 100 \<le> 100 * cl" using assms by simp
  then have "(n * 100) div cl \<le> (100 * cl) div cl" by (rule zdiv_mono1) (use assms in simp)
  then show "(n * 100) div cl \<le> 100" using assms by simp
qed

lemma copyStates_range:
  assumes "pctInRange w" and "0 \<le> totalCopied t"
    and "0 < cl \<longrightarrow> totalCopied t + int (length (body t)) \<le> cl"
    and "0 < cl \<longrightarrow> (totalCopied t + int (length (body t))) * 100 < 2 ^ 63"
  shows "\<forall>s \<in> set (copyStates url cl ticks (w, t)). pctInRange (fst s)"
  using assms
proof (induction ticks arbitrary: w t)
  case Nil
  then show ?case by simp
next
  case (Cons tick ticks)
  obtain w1 t1 err where s: "copyStep url cl tick (w, t) = (w1, t1, err)"
    by (cases "copyStep url cl tick (w, t)") auto
  note f = copyStep_facts [OF s]
  from f(11) Cons.prems have nn: "0 \<le> totalCopied t1" by simp
  from f(2) Cons.prems have up: "0 < cl \<longrightarrow> totalCopied t1 + int (length (body t1)) \<le> cl"
    by simp
  from f(2) Cons.prems
  have bd: "0 < cl \<longrightarrow> (totalCopied t1 + int (length (body t1))) * 100 < 2 ^ 63"
    by simp
  have r1: "pctInRange w1"
  proof (cases "0 < cl")
    case True
    with up have le: "totalCopied t1 \<le> cl" by simp
    from True bd have "totalCopied t1 * 100 < 2 ^ 63" by simp
    with nn have "wrap (totalCopied t1 * 100) = totalCopied t1 * 100" by (simp add: wrap_id)
    with f(9) True nn
    have dp: "downloadPercentages w1 = (downloadPercentages w)(url \<mapsto> (totalCopied t1 * 100) div cl)"
      by (simp add: quo_nonneg)
    from percent_bounds [OF True nn le] Cons.prems(1) dp show ?thesis
      by (auto simp: pctInRange_def)
  next
    case False
    with f(10) Cons.prems show ?thesis by simp
  qed
  from Cons.IH [OF r1 nn up bd] s r1 show ?case by auto
qed

text \<open>Once the chunk length is 0, no round reads the stream, and the loop does not end.\<close>

lemma copyStep_stuck:
  assumes "chunkLen t = 0" and "lastCopied t = 0"
  shows "\<exists>w' t'. copyStep url cl tick (w, t) = (w', t', False)
           \<and> chunkLen t' = 0 \<and> lastCopied t' = 0 \<and> body t' = body t"
  using assms by (simp add: copyStep_def copyN_def Let_def quo_def)

lemma copyLoop_stuck:
  "chunkLen t = 0 \<Longrightarrow> lastCopied t = 0 \<Longrightarrow> copyLoop url cl ticks (w, t) = None"
proof (induction ticks arbitrary: w t)
  case Nil
  then show ?case by simp
next
  case (Cons tick ticks)
  from copyStep_stuck [OF Cons.prems] obtain w' t' where
    "copyStep url cl tick (w, t) = (w', t', False)" "chunkLen t' = 0" "lastCopied t' = 0"
    by blast
  with Cons.IH [of t' w'] show ?case by simp
qed

lemma first_round_stalled:
  "copyStep url cl stalled (w, startTransfer (replicate 10241 0)) = (w', t', err) \<Longrightarrow>
     \<not> err \<and> chunkLen t' = 0 \<and> lastCopied t' = 0 \<and> length (body t') = 1"
  by (auto simp: copyStep_def copyN_def Let_def quo_def stalled_def second_def startTransfer_def
      initialChunkSize_def chunksPerSecond_def)

section \<open>Lemmas on downloadUrl\<close>

lemma downloadUrl_unfold:
  assumes name: "getUniqueFilename (cwd w) (getFilename L url) = Some filename"
    and tmp: "tempFile e filename = Inr tmp"
    and get: "webGet e url = Inr (stream, cl)"
  shows "downloadUrl L e url w =
     (case copyLoop url cl (clock e) (afterGet w url tmp cl, startTransfer stream) of
        None \<Rightarrow> None
      | Some (w4, t) \<Rightarrow>
          (let w5 = w4\<lparr>cwd := (cwd w4)(tmp \<mapsto> File (tmpfile t))\<rparr> in
           case renameErr e of
             Some msg \<Rightarrow>
               Some (ErrPrintf w5 (str ''Unable to rename '' @ tmp @ str '' to ''
                                    @ filename @ str '': '' @ msg), False)
           | None \<Rightarrow>
               Some (w5\<lparr>cwd := ((cwd w5)(tmp := None))(filename \<mapsto> File (tmpfile t))\<rparr>,
                     totalCopied t = cl)))"
proof -
  have cw: "cwd (addDownloadPercentage w url 0) = cwd w"
    by (simp add: addDownloadPercentage_def)
  show ?thesis
    by (simp add: downloadUrl_def afterGet_def Let_def cw name tmp get)
qed

lemma downloadUrl_finished:
  assumes run: "downloadUrl L e url w = Some (w', ok)"
    and name: "getUniqueFilename (cwd w) (getFilename L url) = Some filename"
    and tmp: "tempFile e filename = Inr tmp"
    and get: "webGet e url = Inr (stream, cl)"
  shows "\<exists>w4 t. copyLoop url cl (clock e) (afterGet w url tmp cl, startTransfer stream) = Some (w4, t)
           \<and> totalCopied t = int (length stream) \<and> tmpfile t = stream
           \<and> (case renameErr e of
                 None \<Rightarrow> ok = (totalCopied t = cl) \<and> stderr w' = stderr w
                   \<and> cwd w' = ((cwd w)(tmp := None))(filename \<mapsto> File stream)
               | Some msg \<Rightarrow> \<not> ok \<and> cwd w' = (cwd w)(tmp \<mapsto> File stream))"
proof -
  let ?w3 = "afterGet w url tmp cl"
  have w3: "stderr ?w3 = stderr w" "cwd ?w3 = (cwd w)(tmp \<mapsto> File [])"
    by (simp_all add: afterGet_def Let_def addDownloadPercentage_def)
  note u = downloadUrl_unfold [OF name tmp get]
  from run u obtain w4 t where
    loop: "copyLoop url cl (clock e) (?w3, startTransfer stream) = Some (w4, t)"
    by (cases "copyLoop url cl (clock e) (?w3, startTransfer stream)") auto
  from copyLoop_Some [OF loop] have t: "tmpfile t = stream" "totalCopied t = int (length stream)"
    and w4: "stderr w4 = stderr ?w3" "cwd w4 = cwd ?w3"
    by (simp_all add: startTransfer_def)
  have fin: "case renameErr e of
                 None \<Rightarrow> ok = (totalCopied t = cl) \<and> stderr w' = stderr w
                   \<and> cwd w' = ((cwd w)(tmp := None))(filename \<mapsto> File stream)
               | Some msg \<Rightarrow> \<not> ok \<and> cwd w' = (cwd w)(tmp \<mapsto> File stream)"
  proof (cases "renameErr e")
    case None
    with run u loop have "ok = (totalCopied t = cl)"
      and "w' = w4\<lparr>cwd := ((cwd w4)(tmp := None))(filename \<mapsto> File (tmpfile t))\<rparr>"
      by (auto simp: Let_def)
    with None t w4 w3 show ?thesis by simp
  next
    case (Some msg)
    with run u loop have "\<not> ok"
      and "w' = ErrPrintf (w4\<lparr>cwd := (cwd w4)(tmp \<mapsto> File (tmpfile t))\<rparr>)
                  (str ''Unable to rename '' @ tmp @ str '' to '' @ filename @ str '': '' @ msg)"
      by (auto simp: Let_def)
    with Some t w4 w3 show ?thesis by (simp add: ErrPrintf_def)
  qed
  from loop t fin show ?thesis by blast
qed

subsection \<open>Runs of the fixtures\<close>

lemmas filename_simps = getFilename_def str_def matchAt_def slash_def isWordRune_def isDigit_def
  isAsciiLetter_def replaceIllegal_def illegal_def pL_def filenameSubstitution_def
  defaultFilename_def

lemma testUrl_filename: "getFilename L testUrl = str ''test.out''"
  by (simp add: testUrl_def filename_simps)

lemma testUrl_unique:
  "getUniqueFilename Map.empty (getFilename L testUrl) = Some (str ''test.out'')"
  by (simp add: testUrl_filename getUniqueFilename_def uniqueLoop.simps)

lemmas run_simps = downloadUrl_def mockEnv_def NewDownloader_def testUrl_filename
  getUniqueFilename_def uniqueLoop.simps addDownloadPercentage_def startTransfer_def
  copyStep_def copyN_def initialChunkSize_def quo_def wrap_def second_def chunksPerSecond_def

lemma mock_facts:
  "getUniqueFilename (cwd (NewDownloader Map.empty)) (getFilename L testUrl) = Some (str ''test.out'')"
  "tempFile (mockEnv stream cl ticks) (str ''test.out'') = Inr (str ''test.out123456'')"
  "webGet (mockEnv stream cl ticks) testUrl = Inr (stream, cl)"
  "renameErr (mockEnv stream cl ticks) = None"
  "clock (mockEnv stream cl ticks) = ticks"
  by (simp_all add: mockEnv_def NewDownloader_def testUrl_unique str_def)

text \<open>Three bytes under the declared lengths 4, 0 and 1, and no bytes under the length 0.\<close>

lemma run_short:
  "downloadUrl L (mockEnv [1, 2, 3] 4 [(0, 0)]) testUrl (NewDownloader Map.empty) =
     Some (\<lparr>downloadPercentages = [testUrl \<mapsto> 75], statusTableRowFormat = [], stdout = [],
            stderr = [], cwd = [str ''test.out'' \<mapsto> File [1, 2, 3]]\<rparr>, False)"
  by (simp add: run_simps)

lemma run_unknown_length:
  "downloadUrl L (mockEnv [1, 2, 3] 0 [(0, 0)]) testUrl (NewDownloader Map.empty) =
     Some (\<lparr>downloadPercentages = [testUrl \<mapsto> 100], statusTableRowFormat = [], stdout = [],
            stderr = [], cwd = [str ''test.out'' \<mapsto> File [1, 2, 3]]\<rparr>, False)"
  by (simp add: run_simps)

lemma run_empty:
  "downloadUrl L (mockEnv [] 0 [(0, 0)]) testUrl (NewDownloader Map.empty) =
     Some (\<lparr>downloadPercentages = [testUrl \<mapsto> 100], statusTableRowFormat = [], stdout = [],
            stderr = [], cwd = [str ''test.out'' \<mapsto> File []]\<rparr>, True)"
  by (simp add: run_simps)

lemma run_long:
  "downloadUrl L (mockEnv [1, 2, 3] 1 [(0, 0)]) testUrl (NewDownloader Map.empty) =
     Some (\<lparr>downloadPercentages = [testUrl \<mapsto> 300], statusTableRowFormat = [], stdout = [],
            stderr = [], cwd = [str ''test.out'' \<mapsto> File [1, 2, 3]]\<rparr>, False)"
  by (simp add: run_simps)

lemma copyStates_short:
  "copyStates testUrl 4 [(0, 0)] (NewDownloader Map.empty, startTransfer [1, 2, 3]) =
     [(\<lparr>downloadPercentages = [testUrl \<mapsto> 75], statusTableRowFormat = [], stdout = [],
        stderr = [], cwd = Map.empty\<rparr>,
       \<lparr>body = [], tmpfile = [1, 2, 3], chunkLen = 10240, totalCopied = 3, lastCopied = 3\<rparr>)]"
  by (simp add: run_simps)

text \<open>
  The stream of 10241 bytes ends at the second read of 10240 bytes when the clock does not
  touch the chunk length.
\<close>

lemma same_stream_finishes:
  "map_option snd
     (downloadUrl L (mockEnv (replicate 10241 0) 10241 [(0, 0), (0, 0)]) testUrl
        (NewDownloader Map.empty)) = Some True"
  by (simp add: run_simps)

lemma pctInRange_new: "pctInRange (NewDownloader dir)"
  by (simp add: pctInRange_def NewDownloader_def)

text \<open>
  Rounds under the steady clock: each copies \<open>initialChunkSize\<close> bytes and leaves the
  chunk length as it is.
\<close>

lemma steady_round:
  assumes "chunkLen t = initialChunkSize" and "initialChunkSize \<le> int (length (body t))"
    and "0 < cl"
  shows "\<exists>w1 t1. copyStep url cl (0, 0) (w, t) = (w1, t1, False)
           \<and> chunkLen t1 = initialChunkSize
           \<and> totalCopied t1 = totalCopied t + initialChunkSize
           \<and> int (length (body t1)) = int (length (body t)) - initialChunkSize
           \<and> downloadPercentages w1 url = Some (quo (wrap (totalCopied t1 * 100)) cl)"
  using assms
  by (simp add: copyStep_def copyN_def Let_def initialChunkSize_def second_def
      addDownloadPercentage_def)

lemma steady_rounds:
  assumes "chunkLen t = initialChunkSize"
    and "int k * initialChunkSize \<le> int (length (body t))"
    and "0 < k" and "0 < cl"
  shows "copyStates url cl (replicate k (0, 0)) (w, t) \<noteq> []
         \<and> totalCopied (snd (last (copyStates url cl (replicate k (0, 0)) (w, t))))
             = totalCopied t + int k * initialChunkSize
         \<and> downloadPercentages (fst (last (copyStates url cl (replicate k (0, 0)) (w, t)))) url
             = Some (quo (wrap ((totalCopied t + int k * initialChunkSize) * 100)) cl)"
  using assms(1-3)
proof (induction k arbitrary: w t)
  case 0
  then show ?case by simp
next
  case (Suc j)
  have pos: "0 \<le> initialChunkSize" by (simp add: initialChunkSize_def)
  from Suc.prems(2) pos have one: "initialChunkSize \<le> int (length (body t))"
    by (simp add: algebra_simps) (smt (verit) mult_nonneg_nonneg of_nat_0_le_iff)
  from steady_round [OF Suc.prems(1) one assms(4), of url w] obtain w1 t1 where
    s: "copyStep url cl (0, 0) (w, t) = (w1, t1, False)"
    and c: "chunkLen t1 = initialChunkSize"
    and tc: "totalCopied t1 = totalCopied t + initialChunkSize"
    and len: "int (length (body t1)) = int (length (body t)) - initialChunkSize"
    and pc: "downloadPercentages w1 url = Some (quo (wrap (totalCopied t1 * 100)) cl)"
    by blast
  show ?case
  proof (cases "j = 0")
    case True
    with s tc pc show ?thesis by simp
  next
    case False
    then have j: "0 < j" by simp
    from Suc.prems(2) len have "int j * initialChunkSize \<le> int (length (body t1))"
      by (simp add: algebra_simps)
    from Suc.IH [OF c this j, of w1] s tc show ?thesis
      by (simp add: algebra_simps)
  qed
qed

lemma hugeStream_length: "length hugeStream = 10 ^ 17"
  unfolding hugeStream_def by (rule length_replicate)

lemma huge_run:
  "totalCopied (snd (last (copyStates testUrl (10 ^ 17) steadyClock
                             (NewDownloader Map.empty, startTransfer hugeStream))))
     = 92233720368547840
   \<and> downloadPercentages (fst (last (copyStates testUrl (10 ^ 17) steadyClock
                                       (NewDownloader Map.empty, startTransfer hugeStream))))
       testUrl = Some (- 92)"
proof -
  let ?t = "startTransfer hugeStream"
  have a: "chunkLen ?t = initialChunkSize" "totalCopied ?t = 0"
    by (simp_all add: startTransfer_def)
  have b: "int 9007199254741 * initialChunkSize \<le> int (length (body ?t))"
    by (simp add: startTransfer_def hugeStream_length initialChunkSize_def)
  have v: "quo (wrap 9223372036854784000) (10 ^ 17) = - 92"
    by (simp add: quo_def wrap_def)
  from steady_rounds [OF a(1) b, of "10 ^ 17" testUrl "NewDownloader Map.empty"] v
  show ?thesis unfolding steadyClock_def a(2) by (simp add: initialChunkSize_def)
qed

section \<open>Lemmas on getUniqueFilename\<close>












section \<open>Lemmas on getFilename\<close>

lemma replaceIllegal_map: "replaceIllegal L s = specSanitize L s"
  by (induction s)
    (simp_all add: replaceIllegal_def specSanitize_def illegal_def filenameSubstitution_def str_def)

lemma segments_simps [simp]:
  "segments [] = []" "segments (seg # segs) = slash # seg @ segments segs"
  by (simp_all add: segments_def)

lemma takeWhile_segments: "takeWhile (\<lambda>x. x \<noteq> slash) (segments segs) = []"
  by (cases segs) simp_all

lemma dropWhile_segments: "dropWhile (\<lambda>x. x \<noteq> slash) (segments segs) = segments segs"
  by (cases segs) simp_all

text \<open>On a text of segments, the rounds of the star leave the last segment in the capture.\<close>

lemma lastSegment_segments:
  "(\<forall>seg \<in> set segs. slash \<notin> set seg) \<Longrightarrow>
     lastSegment (segments segs) cap = (if segs = [] then cap else Some (last segs))"
proof (induction segs arbitrary: cap)
  case Nil
  then show ?case by simp
next
  case (Cons seg segs)
  then have ns: "\<And>x. x \<in> set seg \<Longrightarrow> x \<noteq> slash" by auto
  have tw: "takeWhile (\<lambda>x. x \<noteq> slash) (seg @ segments segs) = seg"
    using ns by (simp add: takeWhile_append2 takeWhile_segments)
  have dw: "dropWhile (\<lambda>x. x \<noteq> slash) (seg @ segments segs) = segments segs"
    using ns by (simp add: dropWhile_append2 dropWhile_segments)
  from Cons
  have "lastSegment (segments segs) (Some seg) = (if segs = [] then Some seg else Some (last segs))"
    by simp
  then show ?case by (simp add: tw dw)
qed

text \<open>A text that is empty or starts with a slash is a text of segments.\<close>

lemma tail_segments:
  "t = [] \<or> hd t = slash \<Longrightarrow> \<exists>segs. (\<forall>seg \<in> set segs. slash \<notin> set seg) \<and> t = segments segs"
proof (induction "length t" arbitrary: t rule: less_induct)
  case less
  show ?case
  proof (cases t)
    case Nil
    then have "(\<forall>seg \<in> set []. slash \<notin> set seg) \<and> t = segments []" by simp
    then show ?thesis by (intro exI)
  next
    case (Cons c cs)
    with less.prems have c: "c = slash" by simp
    let ?seg = "takeWhile (\<lambda>x. x \<noteq> slash) cs"
    let ?r = "dropWhile (\<lambda>x. x \<noteq> slash) cs"
    have "length ?r < length t" using Cons by (simp add: length_dropWhile_le le_imp_less_Suc)
    moreover have "?r = [] \<or> hd ?r = slash"
      using hd_dropWhile [of "\<lambda>x. x \<noteq> slash" cs] by auto
    ultimately obtain segs where segs: "\<forall>seg \<in> set segs. slash \<notin> set seg" "?r = segments segs"
      using less.hyps by blast
    have "slash \<notin> set ?seg" using set_takeWhileD by fastforce
    moreover have "t = segments (?seg # segs)"
      using Cons c segs(2) takeWhile_dropWhile_id [of "\<lambda>x. x \<noteq> slash" cs] by simp
    ultimately have "(\<forall>seg \<in> set (?seg # segs). slash \<notin> set seg) \<and> t = segments (?seg # segs)"
      using segs(1) by simp
    then show ?thesis by (intro exI)
  qed
qed

lemma colon_not_word: "\<not> isWordRune 58" "\<not> isWordRune slash"
  by (simp_all add: isWordRune_def isDigit_def isAsciiLetter_def slash_def)

lemma sep_eq: "str ''://'' = [58, slash, slash]"
  by (simp add: str_def slash_def)

text \<open>The expression matches at the start of a text exactly when the text has the shape.\<close>

lemma matchAt_shape:
  assumes "scheme \<noteq> []" and "\<forall>c \<in> set scheme. isWordRune c"
    and "host \<noteq> []" and "slash \<notin> set host"
    and "\<forall>seg \<in> set segs. slash \<notin> set seg"
  shows "matchAt (scheme @ str ''://'' @ host @ segments segs)
           = Some (if segs = [] then None else Some (last segs))"
proof -
  let ?s = "scheme @ str ''://'' @ host @ segments segs"
  have tw: "takeWhile isWordRune ?s = scheme"
    using assms(2) by (simp add: takeWhile_append2 sep_eq colon_not_word)
  have dw: "dropWhile isWordRune ?s = str ''://'' @ host @ segments segs"
    using assms(2) by (simp add: dropWhile_append2 sep_eq colon_not_word)
  have ns: "\<And>x. x \<in> set host \<Longrightarrow> x \<noteq> slash" using assms(4) by auto
  have th: "takeWhile (\<lambda>c. c \<noteq> slash) (host @ segments segs) = host"
    using ns by (simp add: takeWhile_append2 takeWhile_segments)
  have dh: "dropWhile (\<lambda>c. c \<noteq> slash) (host @ segments segs) = segments segs"
    using ns by (simp add: dropWhile_append2 dropWhile_segments)
  have t3: "take 3 (str ''://'' @ host @ segments segs) = str ''://''"
    and d3: "drop 3 (str ''://'' @ host @ segments segs) = host @ segments segs"
    by (simp_all add: sep_eq)
  show ?thesis
    unfolding matchAt_def Let_def tw dw t3 d3 th dh
    using assms(1,3) lastSegment_segments [OF assms(5), of None] by simp
qed

lemma matchAt_Some:
  assumes "matchAt s = Some cap"
  shows "\<exists>scheme host segs.
           s = scheme @ str ''://'' @ host @ segments segs
           \<and> scheme \<noteq> [] \<and> (\<forall>c \<in> set scheme. isWordRune c)
           \<and> host \<noteq> [] \<and> slash \<notin> set host
           \<and> (\<forall>seg \<in> set segs. slash \<notin> set seg)
           \<and> cap = (if segs = [] then None else Some (last segs))"
proof -
  let ?scheme = "takeWhile isWordRune s"
  let ?r1 = "dropWhile isWordRune s"
  let ?r2 = "drop 3 ?r1"
  let ?host = "takeWhile (\<lambda>c. c \<noteq> slash) ?r2"
  let ?t = "dropWhile (\<lambda>c. c \<noteq> slash) ?r2"
  from assms have a: "?scheme \<noteq> []" "take 3 ?r1 = str ''://''" "?host \<noteq> []"
    and cap: "cap = lastSegment ?t None"
    by (auto simp: matchAt_def Let_def split: if_splits)
  have "?t = [] \<or> hd ?t = slash" using hd_dropWhile [of "\<lambda>x. x \<noteq> slash" ?r2] by auto
  from tail_segments [OF this] obtain segs where
    segs: "\<forall>seg \<in> set segs. slash \<notin> set seg" "?t = segments segs" by blast
  have "s = ?scheme @ ?r1" by simp
  also have "?r1 = take 3 ?r1 @ ?r2" by simp
  also have "?r2 = ?host @ ?t" by simp
  finally have s: "s = ?scheme @ str ''://'' @ ?host @ segments segs"
    using a(2) segs(2) by simp
  have w: "\<forall>c \<in> set ?scheme. isWordRune c" using set_takeWhileD by fastforce
  have h: "slash \<notin> set ?host" using set_takeWhileD by fastforce
  from cap segs lastSegment_segments [OF segs(1), of None]
  have "cap = (if segs = [] then None else Some (last segs))" by simp
  with s a w h segs(1) show ?thesis by blast
qed


lemma find_Some:
  "findStringSubmatch url = Some cap \<Longrightarrow> \<exists>pre suf. url = pre @ suf \<and> matchAt suf = Some cap"
proof (induction url)
  case Nil
  then have "[] = [] @ [] \<and> matchAt [] = Some cap" by simp
  then show ?case by (intro exI)
next
  case (Cons c cs)
  show ?case
  proof (cases "matchAt (c # cs)")
    case None
    with Cons.prems have "findStringSubmatch cs = Some cap" by simp
    from Cons.IH [OF this] obtain pre suf where "cs = pre @ suf" "matchAt suf = Some cap" by blast
    then have "c # cs = (c # pre) @ suf \<and> matchAt suf = Some cap" by simp
    then show ?thesis by (intro exI)
  next
    case (Some a)
    with Cons.prems have "c # cs = [] @ (c # cs) \<and> matchAt (c # cs) = Some cap" by simp
    then show ?thesis by (intro exI)
  qed
qed

lemma matchAt_Nil: "matchAt [] = None"
  by (simp add: matchAt_def)

lemma find_leftmost:
  "matchAt suf = Some c \<Longrightarrow>
     \<exists>cap q. findStringSubmatch (pre @ suf) = Some cap \<and> matchAt (q @ suf) = Some cap"
proof (induction pre)
  case Nil
  then obtain x xs where "suf = x # xs" by (cases suf) (simp_all add: matchAt_Nil)
  with Nil have "findStringSubmatch ([] @ suf) = Some c \<and> matchAt ([] @ suf) = Some c" by simp
  then show ?case by blast
next
  case (Cons p ps)
  show ?case
  proof (cases "matchAt (p # ps @ suf)")
    case None
    from Cons.IH [OF Cons.prems] obtain cap q where
      "findStringSubmatch (ps @ suf) = Some cap" "matchAt (q @ suf) = Some cap" by blast
    with None have "findStringSubmatch ((p # ps) @ suf) = Some cap \<and> matchAt (q @ suf) = Some cap"
      by simp
    then show ?thesis by blast
  next
    case (Some a)
    then have "findStringSubmatch ((p # ps) @ suf) = Some a \<and> matchAt ((p # ps) @ suf) = Some a"
      by simp
    then show ?thesis by blast
  qed
qed

lemma tailSeg_snoc: "slash \<notin> set seg \<Longrightarrow> tailSeg (y @ slash # seg) = seg"
proof -
  assume "slash \<notin> set seg"
  then have "\<And>x. x \<in> set (rev seg) \<Longrightarrow> x \<noteq> slash" by auto
  then have "takeWhile (\<lambda>x. x \<noteq> slash) (rev seg @ slash # rev y)
               = rev seg @ takeWhile (\<lambda>x. x \<noteq> slash) (slash # rev y)"
    by (rule takeWhile_append2)
  then have "takeWhile (\<lambda>x. x \<noteq> slash) (rev seg @ slash # rev y) = rev seg"
    by simp
  then show ?thesis by (simp add: tailSeg_def)
qed

lemma segments_snoc: "segs \<noteq> [] \<Longrightarrow> segments segs = segments (butlast segs) @ slash # last segs"
  by (induction segs) auto

lemma tailSeg_segments:
  assumes "segs \<noteq> []" and "\<forall>seg \<in> set segs. slash \<notin> set seg"
  shows "tailSeg (x @ segments segs) = last segs"
proof -
  from assms have "slash \<notin> set (last segs)" by simp
  from tailSeg_snoc [OF this, of "x @ segments (butlast segs)"] segments_snoc [OF assms(1)]
  show ?thesis by simp
qed

lemma tailSeg_append: "slash \<in> set s \<Longrightarrow> tailSeg (q @ s) = tailSeg s"
proof -
  assume "slash \<in> set s"
  then have "slash \<in> set (rev s)" by simp
  then have "takeWhile (\<lambda>x. x \<noteq> slash) (rev s @ rev q) = takeWhile (\<lambda>x. x \<noteq> slash) (rev s)"
    by (intro takeWhile_append1 [of slash]) auto
  then show ?thesis by (simp add: tailSeg_def)
qed

lemma slashes_append [simp]: "slashes (a @ b) = slashes a + slashes b"
  by (simp add: slashes_def)

lemma slashes_none: "slash \<notin> set s \<Longrightarrow> slashes s = 0"
  by (induction s) (auto simp: slashes_def)

lemma slashes_word: "\<forall>c \<in> set s. isWordRune c \<Longrightarrow> slashes s = 0"
  using colon_not_word(2) by (intro slashes_none) auto

lemma slashes_sep: "slashes (str ''://'') = 2"
  by (simp add: slashes_def sep_eq slash_def)

lemma slashes_segments: "segs \<noteq> [] \<Longrightarrow> 1 \<le> slashes (segments segs)"
  by (cases segs) (simp_all add: slashes_def)

lemma find_good:
  assumes "urlShape url segs" and "segs \<noteq> []"
  shows "findStringSubmatch url = Some (Some (last segs))"
proof -
  from assms(1) obtain pre scheme host where
    url: "url = pre @ scheme @ str ''://'' @ host @ segments segs"
    and sh: "scheme \<noteq> []" "\<forall>c \<in> set scheme. isWordRune c" "host \<noteq> []" "slash \<notin> set host"
      "\<forall>seg \<in> set segs. slash \<notin> set seg"
    by (auto simp: urlShape_def)
  let ?suf = "scheme @ str ''://'' @ host @ segments segs"
  from matchAt_shape [OF sh] have "matchAt ?suf = Some (if segs = [] then None else Some (last segs))" .
  from find_leftmost [OF this, of pre] obtain cap q where
    f: "findStringSubmatch (pre @ ?suf) = Some cap" and m: "matchAt (q @ ?suf) = Some cap" by blast
  from matchAt_Some [OF m] obtain scheme' host' segs' where
    eq: "q @ ?suf = scheme' @ str ''://'' @ host' @ segments segs'"
    and sh': "\<forall>c \<in> set scheme'. isWordRune c" "slash \<notin> set host'"
      "\<forall>seg \<in> set segs'. slash \<notin> set seg"
    and cap: "cap = (if segs' = [] then None else Some (last segs'))"
    by blast
  have ne: "segs' \<noteq> []"
  proof
    assume "segs' = []"
    with eq have "slashes (q @ ?suf) = slashes (scheme' @ str ''://'' @ host')" by simp
    also have "\<dots> = 2" using sh' by (simp add: slashes_word slashes_none slashes_sep)
    finally have "slashes (q @ ?suf) = 2" .
    moreover have "3 \<le> slashes (q @ ?suf)"
      using slashes_segments [OF assms(2)] by (simp add: slashes_sep)
    ultimately show False by simp
  qed
  have "slash \<in> set ?suf" by (simp add: sep_eq)
  then have "tailSeg (q @ ?suf) = tailSeg ?suf" by (rule tailSeg_append)
  also have "\<dots> = last segs"
    using tailSeg_segments [OF assms(2) sh(5), of "scheme @ str ''://'' @ host"] by simp
  finally have "tailSeg (q @ ?suf) = last segs" .
  moreover have "tailSeg (q @ ?suf) = last segs'"
    using tailSeg_segments [OF ne sh'(3), of "scheme' @ str ''://'' @ host'"] eq by simp
  ultimately have "last segs' = last segs" by simp
  with cap ne f url show ?thesis by simp
qed

lemma find_sound:
  assumes "findStringSubmatch url = Some (Some m1)"
  shows "\<exists>segs. urlShape url segs \<and> segs \<noteq> [] \<and> last segs = m1"
proof -
  from find_Some [OF assms] obtain pre suf where
    url: "url = pre @ suf" and m: "matchAt suf = Some (Some m1)" by blast
  from matchAt_Some [OF m] obtain scheme host segs where
    "suf = scheme @ str ''://'' @ host @ segments segs"
    "scheme \<noteq> []" "\<forall>c \<in> set scheme. isWordRune c" "host \<noteq> []" "slash \<notin> set host"
    "\<forall>seg \<in> set segs. slash \<notin> set seg"
    and cap: "Some m1 = (if segs = [] then None else Some (last segs))"
    by blast
  with url have "urlShape url segs" unfolding urlShape_def by blast
  moreover from cap have "segs \<noteq> [] \<and> last segs = m1" by (auto split: if_splits)
  ultimately show ?thesis by blast
qed

lemma default_clean: "replaceIllegal L defaultFilename = str ''index.html''"
  by (simp add: filename_simps)


lemma shape_example: "urlShape (str ''ftp://host/a/b c'') [str ''a'', str ''b c'']"
proof -
  have "str ''ftp://host/a/b c''
          = [] @ str ''ftp'' @ str ''://'' @ str ''host'' @ segments [str ''a'', str ''b c'']
        \<and> str ''ftp'' \<noteq> [] \<and> (\<forall>c \<in> set (str ''ftp''). isWordRune c)
        \<and> str ''host'' \<noteq> [] \<and> slash \<notin> set (str ''host'')
        \<and> (\<forall>seg \<in> set [str ''a'', str ''b c'']. slash \<notin> set seg)"
    by (simp add: str_def segments_def slash_def isWordRune_def isDigit_def isAsciiLetter_def)
  then show ?thesis unfolding urlShape_def by (intro exI)
qed

text \<open>The second URL of \<open>TestGetFilename\<close> has no last segment to return.\<close>

lemma dots_find:
  "findStringSubmatch (str ''http://example.com/././fff/../../..'') = Some (Some (str ''..''))"
  by (simp add: str_def matchAt_def slash_def isWordRune_def isDigit_def isAsciiLetter_def)

lemma dots_unshaped:
  "\<nexists>segs. urlShape (str ''http://example.com/././fff/../../..'') segs \<and> segs \<noteq> []
           \<and> last segs \<noteq> [] \<and> last segs \<noteq> str ''.'' \<and> last segs \<noteq> str ''..''"
proof
  assume "\<exists>segs. urlShape (str ''http://example.com/././fff/../../..'') segs \<and> segs \<noteq> []
           \<and> last segs \<noteq> [] \<and> last segs \<noteq> str ''.'' \<and> last segs \<noteq> str ''..''"
  then obtain segs where s: "urlShape (str ''http://example.com/././fff/../../..'') segs"
    "segs \<noteq> []" "last segs \<noteq> str ''..''"
    by blast
  from find_good [OF s(1,2)] dots_find have "last segs = str ''..''" by simp
  with s(3) show False by simp
qed

section \<open>Lemmas on initializeStatusTable\<close>








section \<open>The claims\<close>

text \<open>
  C1, as the code has it. For a job whose declared content length is 0, that has its
  temporary file and its stream, and that sends a signal: the copy loop has ended with
  the whole stream copied, and the signal carries success exactly when the rename
  succeeded and no byte was copied (\<open>totalCopied = 0\<close>). The signal is not unconditional:
  it is the comparison \<open>totalCopied == contentLen\<close> for this length as for any other.
\<close>

theorem unknown_length_signal:
  assumes "downloadUrl L e url w = Some (w', ok)"
    and "getUniqueFilename (cwd w) (getFilename L url) = Some filename"
    and "tempFile e filename = Inr tmp"
    and "webGet e url = Inr (stream, 0)"
  shows "\<exists>w4 t. copyLoop url 0 (clock e) (afterGet w url tmp 0, startTransfer stream) = Some (w4, t)
           \<and> totalCopied t = int (length stream)
           \<and> ok = (renameErr e = None \<and> totalCopied t = 0)"
  using downloadUrl_finished [OF assms(1-4)] by (cases "renameErr e") auto

theorem unknown_length_signal_witness:
  "downloadUrl (\<lambda>c. False) (mockEnv [] 0 [(0, 0)]) testUrl (NewDownloader Map.empty) =
     Some (\<lparr>downloadPercentages = [testUrl \<mapsto> 100], statusTableRowFormat = [], stdout = [],
            stderr = [], cwd = [str ''test.out'' \<mapsto> File []]\<rparr>, True)
   \<and> (\<exists>w4 t. copyLoop testUrl 0 [(0, 0)]
               (afterGet (NewDownloader Map.empty) testUrl (str ''test.out123456'') 0,
                startTransfer []) = Some (w4, t)
             \<and> totalCopied t = 0)"
  using unknown_length_signal [OF run_empty mock_facts(1-3)]
  by (simp add: mock_facts run_empty)

text \<open>
  The claim C1 as stated fails: the stream delivers three bytes under the declared
  length 0, is drained, the rename succeeds, and the signal carries failure.
\<close>

theorem unknown_length_signal_counterexample:
  "map_option snd
     (downloadUrl (\<lambda>c. False) (mockEnv [1, 2, 3] 0 [(0, 0)]) testUrl (NewDownloader Map.empty))
   = Some False"
  by (simp add: run_unknown_length)

text \<open>
  C2 fails on the code. A stream of 10241 bytes, whose second read of 10240 bytes would
  signal its end, delivers its first 10240 bytes in 10240 seconds: the measured speed is
  1 byte per second, the chunk length becomes \<open>1 / 2 = 0\<close>, \<open>io.CopyN\<close> with length 0
  returns \<open>(0, nil)\<close> without reading, and every later measurement gives 0 again. However
  many further rounds the clock allows, \<open>downloadUrl\<close> sends no signal.
\<close>

theorem stalled_download_never_finishes:
  "downloadUrl L (mockEnv (replicate 10241 0) 10241 (stalled # ticks)) testUrl
     (NewDownloader Map.empty) = None"
proof -
  let ?w = "afterGet (NewDownloader Map.empty) testUrl (str ''test.out123456'') 10241"
  obtain w' t' err where
    s: "copyStep testUrl 10241 stalled (?w, startTransfer (replicate 10241 0)) = (w', t', err)"
    by (cases "copyStep testUrl 10241 stalled (?w, startTransfer (replicate 10241 0))") auto
  from first_round_stalled [OF s] have "\<not> err" "chunkLen t' = 0" "lastCopied t' = 0" by auto
  with s copyLoop_stuck [of t' testUrl 10241 ticks w']
  have "copyLoop testUrl 10241 (stalled # ticks) (?w, startTransfer (replicate 10241 0)) = None"
    by simp
  then show ?thesis
    by (simp add: downloadUrl_unfold [OF mock_facts(1-3)] mock_facts)
qed

text \<open>
  C3, as the code has it. Invoked with no URL, \<open>main\<close> exits with code 1 and writes the
  usage message with \<open>fmt.Printf\<close>, that is to standard output; it writes nothing to
  standard error.
\<close>

theorem usage_error:
  "main Download argv0 [] w = Some (w\<lparr>stdout := stdout w @ usage argv0\<rparr>, 1)"
  by (simp add: main_def)

text \<open>The claim C3 as stated fails: standard error stays empty, the message is on standard output.\<close>

theorem usage_error_counterexample:
  "main (\<lambda>urls w. Some w) (str ''gowget'') [] (NewDownloader Map.empty) =
     Some (\<lparr>downloadPercentages = Map.empty, statusTableRowFormat = [],
            stdout = str ''gowget: missing url'' @ nl @ str ''Usage: gowget [URL]...'' @ nl,
            stderr = [], cwd = Map.empty\<rparr>, 1)"
  by (simp add: main_def NewDownloader_def usage_def str_def)

text \<open>
  C4, as the code has it. In a registry whose percentages lie between 0 and 100, the
  writes of a download task keep them there (the 0 at registration, the 100 for the
  declared length 0, and the percentage after every round of the copy loop) provided
  that the stream delivers no more bytes than a positive declared content length, and
  fewer than \<open>2^63 div 100\<close> of them, so that \<open>totalCopied * 100\<close> stays in the range of
  \<open>int\<close>. The code has no clamp: beyond the declared length the percentage exceeds 100.
\<close>

theorem percentages_in_range:
  assumes "pctInRange w"
    and "0 < cl \<longrightarrow> int (length stream) \<le> cl \<and> int (length stream) * 100 < 2 ^ 63"
  shows "pctInRange (addDownloadPercentage w url 0)
         \<and> pctInRange (addDownloadPercentage w url 100)
         \<and> (\<forall>s \<in> set (copyStates url cl ticks (w, startTransfer stream)). pctInRange (fst s))"
  using assms pctInRange_add [of w 0 url] pctInRange_add [of w 100 url]
    copyStates_range [of w "startTransfer stream" cl url ticks]
  by (simp add: startTransfer_def)

theorem percentages_in_range_witness:
  "pctInRange (NewDownloader Map.empty) \<and> int (length [1, 2, 3 :: byte]) \<le> 4
   \<and> int (length [1, 2, 3 :: byte]) * 100 < 2 ^ 63
   \<and> pctInRange (fst (hd (copyStates testUrl 4 [(0, 0)]
                             (NewDownloader Map.empty, startTransfer [1, 2, 3]))))"
  using percentages_in_range [OF pctInRange_new, of 4 "[1, 2, 3]" Map.empty testUrl "[(0, 0)]",
      unfolded copyStates_short]
  unfolding copyStates_short by (simp add: pctInRange_new)

text \<open>
  The claim C4 as stated fails: a stream of three bytes under the declared content
  length 1 leaves 300 in the registry; and a stream of the declared length \<open>10^17\<close>
  leaves \<open>- 92\<close> there after 92233720368547840 bytes, when the product has wrapped.
\<close>

theorem percentages_in_range_counterexample:
  "map_option (\<lambda>(w, ok). downloadPercentages w testUrl)
     (downloadUrl (\<lambda>c. False) (mockEnv [1, 2, 3] 1 [(0, 0)]) testUrl (NewDownloader Map.empty))
   = Some (Some 300)
   \<and> downloadPercentages (fst (last (copyStates testUrl (10 ^ 17) steadyClock
                                       (NewDownloader Map.empty, startTransfer hugeStream))))
       testUrl = Some (- 92)"
  using huge_run by (simp add: run_long)

text \<open>
  C5. A job with a positive declared content length that has its temporary file and its
  stream, whose rename succeeds and that sends a signal: the copy loop has ended with
  the whole stream copied; the signal carries success if and only if \<open>totalCopied\<close>
  equals the declared content length; and nothing has been written to the error sink,
  also when they differ.
\<close>

theorem signal_iff_complete:
  assumes "downloadUrl L e url w = Some (w', ok)"
    and "getUniqueFilename (cwd w) (getFilename L url) = Some filename"
    and "tempFile e filename = Inr tmp"
    and "webGet e url = Inr (stream, cl)"
    and "0 < cl" and "renameErr e = None"
  shows "\<exists>w4 t. copyLoop url cl (clock e) (afterGet w url tmp cl, startTransfer stream) = Some (w4, t)
           \<and> totalCopied t = int (length stream)
           \<and> ok = (totalCopied t = cl) \<and> stderr w' = stderr w"
  using downloadUrl_finished [OF assms(1-4)] assms(6) by auto

theorem signal_iff_complete_witness:
  "downloadUrl (\<lambda>c. False) (mockEnv [1, 2, 3] 4 [(0, 0)]) testUrl (NewDownloader Map.empty) =
     Some (\<lparr>downloadPercentages = [testUrl \<mapsto> 75], statusTableRowFormat = [], stdout = [],
            stderr = [], cwd = [str ''test.out'' \<mapsto> File [1, 2, 3]]\<rparr>, False)
   \<and> (\<exists>w4 t. copyLoop testUrl 4 [(0, 0)]
               (afterGet (NewDownloader Map.empty) testUrl (str ''test.out123456'') 4,
                startTransfer [1, 2, 3]) = Some (w4, t)
             \<and> totalCopied t = 3 \<and> totalCopied t \<noteq> 4
             \<and> [] = stderr (NewDownloader Map.empty))"
  using signal_iff_complete [OF run_short mock_facts(1-3)]
  by (simp add: mock_facts run_short)

text \<open>
  C6. For every URL: when the URL has the shape \<open>scheme://host\<close> followed by segments,
  each after its slash, and the last segment is not empty and is neither \<open>.\<close> nor \<open>..\<close>,
  \<open>getFilename\<close> returns that segment with every character that is not a letter, a
  hyphen, a dot or a decimal digit replaced by \<open>_\<close>; when the URL has no such shape (no
  match of \<open>scheme://host\<close>, no segment, or a last segment that is empty, \<open>.\<close> or \<open>..\<close>),
  it returns \<open>index.html\<close>. The two URLs of \<open>TestGetFilename\<close> give \<open>test.htm\<close> and
  \<open>index.html\<close>: no \<open>..\<close> is resolved.
\<close>

theorem getFilename_spec:
  "(\<forall>segs. urlShape url segs \<and> segs \<noteq> [] \<and> last segs \<noteq> []
            \<and> last segs \<noteq> str ''.'' \<and> last segs \<noteq> str ''..''
        \<longrightarrow> getFilename L url = specSanitize L (last segs))
   \<and> ((\<nexists>segs. urlShape url segs \<and> segs \<noteq> [] \<and> last segs \<noteq> []
              \<and> last segs \<noteq> str ''.'' \<and> last segs \<noteq> str ''..'')
        \<longrightarrow> getFilename L url = str ''index.html'')
   \<and> getFilename L (str ''http://example.com/././fff/../../../test.htm'') = str ''test.htm''
   \<and> getFilename L (str ''http://example.com/././fff/../../..'') = str ''index.html''"
proof (intro conjI allI impI)
  fix segs
  assume a: "urlShape url segs \<and> segs \<noteq> [] \<and> last segs \<noteq> []
            \<and> last segs \<noteq> str ''.'' \<and> last segs \<noteq> str ''..''"
  then have "findStringSubmatch url = Some (Some (last segs))" by (simp add: find_good)
  with a show "getFilename L url = specSanitize L (last segs)"
    by (simp add: getFilename_def replaceIllegal_map)
next
  assume n: "\<nexists>segs. urlShape url segs \<and> segs \<noteq> [] \<and> last segs \<noteq> []
              \<and> last segs \<noteq> str ''.'' \<and> last segs \<noteq> str ''..''"
  have "getFilename L url = replaceIllegal L defaultFilename"
  proof (cases "findStringSubmatch url")
    case None
    then show ?thesis by (simp add: getFilename_def)
  next
    case (Some cap)
    show ?thesis
    proof (cases cap)
      case None
      with Some show ?thesis by (simp add: getFilename_def)
    next
      case (Some m1)
      with \<open>findStringSubmatch url = Some cap\<close> have f: "findStringSubmatch url = Some (Some m1)" by simp
      from find_sound [OF f] n
      have bad: "\<not> (m1 \<noteq> [] \<and> m1 \<noteq> str ''..'' \<and> m1 \<noteq> str ''.'')" by blast
      show ?thesis
        unfolding getFilename_def Let_def f by (simp only: option.case if_not_P [OF bad])
    qed
  qed
  then show "getFilename L url = str ''index.html''" by (simp add: default_clean)
next
  show "getFilename L (str ''http://example.com/././fff/../../../test.htm'') = str ''test.htm''"
    by (simp add: filename_simps)
next
  show "getFilename L (str ''http://example.com/././fff/../../..'') = str ''index.html''"
    by (simp add: filename_simps)
qed

theorem getFilename_spec_witness:
  "urlShape (str ''ftp://host/a/b c'') [str ''a'', str ''b c'']
   \<and> getFilename (\<lambda>c. False) (str ''ftp://host/a/b c'') = str ''b_c''
   \<and> (\<nexists>segs. urlShape (str ''http://example.com/././fff/../../..'') segs \<and> segs \<noteq> []
           \<and> last segs \<noteq> [] \<and> last segs \<noteq> str ''.'' \<and> last segs \<noteq> str ''..'')
   \<and> getFilename (\<lambda>c. False) (str ''http://example.com/././fff/../../..'') = str ''index.html''"
proof -
  have "last [str ''a'', str ''b c''] \<noteq> [] \<and> last [str ''a'', str ''b c''] \<noteq> str ''.''
        \<and> last [str ''a'', str ''b c''] \<noteq> str ''..''"
    by (simp add: str_def)
  with getFilename_spec [of "str ''ftp://host/a/b c''" "\<lambda>c. False"] shape_example
  have "getFilename (\<lambda>c. False) (str ''ftp://host/a/b c'')
          = specSanitize (\<lambda>c. False) (last [str ''a'', str ''b c''])"
    by blast
  also have "\<dots> = str ''b_c''"
    by (simp add: specSanitize_def str_def pL_def isAsciiLetter_def isDigit_def)
  finally have one: "getFilename (\<lambda>c. False) (str ''ftp://host/a/b c'') = str ''b_c''" .
  from getFilename_spec [of "str ''http://example.com/././fff/../../..''" "\<lambda>c. False"]
    dots_unshaped
  have two: "getFilename (\<lambda>c. False) (str ''http://example.com/././fff/../../..'')
               = str ''index.html''"
    by blast
  from one two shape_example dots_unshaped show ?thesis by (intro conjI)
qed





text \<open>
  C9 fails on the code. After every round of the copy loop, whatever the clock, for a
  stream of fewer than \<open>2^63\<close> bytes under a positive declared length, \<open>totalCopied\<close> is
  the number of bytes in the temporary file, a prefix of the stream, and the registry
  holds \<open>(totalCopied*100)/contentLen\<close> as \<open>int\<close> computes it:
  the product wraps around once \<open>2^63 div 100\<close> bytes are copied, and the quotient is no
  longer the floor of \<open>totalCopied * 100 / contentLen\<close> (lemma \<open>copyStates_inv\<close> has the
  floor below that many bytes). Under the declared length \<open>10^17\<close>, after 9007199254741
  rounds of 10240 bytes the temporary file holds 92233720368547840 bytes, which are 92
  percent; the product 9223372036854784000 is above \<open>2^63 - 1\<close>, wraps to
  \<open>- 9223372036854767616\<close>, and the registry holds \<open>- 92\<close>.
\<close>

theorem percentage_wraps:
  "(0 < cl \<and> int (length stream) < 2 ^ 63 \<longrightarrow>
      (\<forall>(w', t') \<in> set (copyStates url cl ticks (w, startTransfer stream)).
         downloadPercentages w' url = Some (quo (wrap (totalCopied t' * 100)) cl)
         \<and> totalCopied t' = int (length (tmpfile t'))
         \<and> tmpfile t' @ body t' = stream))
   \<and> totalCopied (snd (last (copyStates testUrl (10 ^ 17) steadyClock
                               (NewDownloader Map.empty, startTransfer hugeStream))))
       = 92233720368547840
   \<and> downloadPercentages (fst (last (copyStates testUrl (10 ^ 17) steadyClock
                                       (NewDownloader Map.empty, startTransfer hugeStream))))
       testUrl = Some (- 92)
   \<and> (92233720368547840 * 100) div 10 ^ 17 = (92 :: int)"
proof (intro conjI impI)
  assume "0 < cl \<and> int (length stream) < 2 ^ 63"
  then have "0 < cl" by simp
  from copyStates_published [OF this, of "startTransfer stream" url ticks w]
  show "\<forall>(w', t') \<in> set (copyStates url cl ticks (w, startTransfer stream)).
         downloadPercentages w' url = Some (quo (wrap (totalCopied t' * 100)) cl)
         \<and> totalCopied t' = int (length (tmpfile t'))
         \<and> tmpfile t' @ body t' = stream"
    by (simp add: startTransfer_def)
next
  show "totalCopied (snd (last (copyStates testUrl (10 ^ 17) steadyClock
                               (NewDownloader Map.empty, startTransfer hugeStream))))
       = 92233720368547840"
    using huge_run by (rule conjunct1)
next
  show "downloadPercentages (fst (last (copyStates testUrl (10 ^ 17) steadyClock
                                       (NewDownloader Map.empty, startTransfer hugeStream))))
       testUrl = Some (- 92)"
    using huge_run by (rule conjunct2)
next
  show "(92233720368547840 * 100) div 10 ^ 17 = (92 :: int)" by simp
qed

theorem percentage_wraps_witness:
  "(0::int) < 4 \<and> int (length [1, 2, 3 :: byte]) < 2 ^ 63 \<and>
   downloadPercentages
     (fst (hd (copyStates testUrl 4 [(0, 0)] (NewDownloader Map.empty, startTransfer [1, 2, 3]))))
     testUrl = Some (quo (wrap (3 * 100)) 4)
   \<and> quo (wrap (3 * 100)) 4 = 75"
  using percentage_wraps [of 4 "[1, 2, 3]" testUrl "[(0, 0)]" "NewDownloader Map.empty"]
  unfolding copyStates_short by (simp add: quo_def wrap_def)

text \<open>
  C10. A job with a positive declared content length whose stream stops before that
  length, and that sends a signal: the signal carries failure; when the rename succeeds,
  the destination name holds a file with the bytes that were delivered, and nothing
  removes it; when the rename fails, these bytes stay under the temporary name.
\<close>

theorem partial_file_kept:
  assumes "downloadUrl L e url w = Some (w', ok)"
    and "getUniqueFilename (cwd w) (getFilename L url) = Some filename"
    and "tempFile e filename = Inr tmp"
    and "webGet e url = Inr (stream, cl)"
    and "0 < cl" and "int (length stream) < cl"
  shows "\<not> ok \<and> (renameErr e = None \<longrightarrow> cwd w' filename = Some (File stream))
           \<and> (renameErr e \<noteq> None \<longrightarrow> cwd w' tmp = Some (File stream))"
  using downloadUrl_finished [OF assms(1-4)] assms(6) by (cases "renameErr e") auto

theorem partial_file_kept_witness:
  "(\<exists>w'. downloadUrl (\<lambda>c. False) (mockEnv [1, 2, 3] 4 [(0, 0)]) testUrl (NewDownloader Map.empty)
           = Some (w', False)
         \<and> cwd w' (str ''test.out'') = Some (File [1, 2, 3]))
   \<and> int (length [1, 2, 3 :: byte]) < 4"
  using partial_file_kept [OF run_short mock_facts(1-3)]
  by (simp add: mock_facts run_short)

end
